theory Spec2Isabelle
  imports Main "HOL-Library.AList"
begin

section \<open>JavaScript values and plain objects\<close>

text \<open>
  The program keeps all its data in plain JavaScript objects: every row handed over by
  the CSV parser, the result \<^verbatim>\<open>map\<close> and the sub-mapping \<^verbatim>\<open>v\<close> built by
  \<^verbatim>\<open>getValue\<close> are objects created as \<^verbatim>\<open>{}\<close>, whose prototype is
  \<^verbatim>\<open>Object.prototype\<close>. A property read \<^verbatim>\<open>o[k]\<close> therefore looks at the own
  properties of \<^verbatim>\<open>o\<close> first and at the members of \<^verbatim>\<open>Object.prototype\<close> next, and
  yields \<^verbatim>\<open>undefined\<close> only when both lack \<^verbatim>\<open>k\<close>.

  \<open>cell\<close> is what a read \<^verbatim>\<open>row[colName]\<close> can evaluate to: the string of an own column,
  \<^verbatim>\<open>undefined\<close>, or an inherited member (the prototype object itself under
  \<^verbatim>\<open>__proto__\<close>, a built-in function under the other names).
\<close>

datatype cell = Undefined | Str string | ObjectPrototype | NativeFn string

text \<open>
  \<open>jsval\<close> is what the result map can hold: a \<open>cell\<close>, an object (a row or a
  sub-mapping, as the list of its own properties in enumeration order) or an array.
\<close>

datatype jsval = Cell cell | Obj "(string \<times> cell) list" | Arr "jsval list"

type_synonym row = "(string \<times> string) list"

type_synonym resultmap = "(string \<times> jsval) list"

text \<open>The members of \<^verbatim>\<open>Object.prototype\<close>, by property name.\<close>

definition object_prototype :: "string \<Rightarrow> cell option" where
  "object_prototype k =
     (if k = ''__proto__'' then Some ObjectPrototype
      else if k = ''constructor'' then Some (NativeFn ''Object'')
      else if List.member
          [''toString'', ''toLocaleString'', ''valueOf'', ''hasOwnProperty'',
           ''isPrototypeOf'', ''propertyIsEnumerable'', ''__defineGetter__'',
           ''__defineSetter__'', ''__lookupGetter__'', ''__lookupSetter__''] k
        then Some (NativeFn k)
      else None)"

text \<open>\<^verbatim>\<open>row[colName]\<close>: the own column, else the inherited member, else \<^verbatim>\<open>undefined\<close>.\<close>

definition row_get :: "row \<Rightarrow> string \<Rightarrow> cell" where
  "row_get row colName =
     (case map_of row colName of
        Some s \<Rightarrow> Str s
      | None \<Rightarrow> (case object_prototype colName of Some m \<Rightarrow> m | None \<Rightarrow> Undefined))"

text \<open>
  String coercion, as the concatenation \<^verbatim>\<open>delim + row[colName]\<close> performs it. A
  built-in function prints as V8 prints native functions.
\<close>

fun to_string :: "cell \<Rightarrow> string" where
  "to_string Undefined = ''undefined''"
| "to_string (Str s) = s"
| "to_string ObjectPrototype = ''[object Object]''"
| "to_string (NativeFn n) = ''function '' @ n @ ''() { [native code] }''"

section \<open>Own properties in enumeration order\<close>

text \<open>
  An object enumerates its own property names (\<^verbatim>\<open>Object.keys\<close>, \<^verbatim>\<open>JSON.stringify\<close>)
  with the array indices first, in ascending numeric order, and the other names after
  them in the order of their creation. An array index is the canonical decimal form of
  an integer below \<open>2\<^sup>3\<^sup>2 - 1\<close>.
\<close>

definition is_digit :: "char \<Rightarrow> bool" where
  "is_digit c = List.member ''0123456789'' c"

definition decimal_value :: "string \<Rightarrow> int" where
  "decimal_value s = foldl (\<lambda>n c. 10 * n + (of_char c - 48)) 0 s"

definition array_index :: "string \<Rightarrow> int option" where
  "array_index s =
     (if s \<noteq> [] \<and> list_all is_digit s \<and> (s = ''0'' \<or> hd s \<noteq> CHR ''0'')
         \<and> decimal_value s < 4294967295
      then Some (decimal_value s) else None)"

fun insert_index :: "int \<Rightarrow> string \<Rightarrow> 'a \<Rightarrow> (string \<times> 'a) list \<Rightarrow> (string \<times> 'a) list" where
  "insert_index n k v [] = [(k, v)]"
| "insert_index n k v (p # ps) =
     (case array_index (fst p) of
        Some n' \<Rightarrow> if n' < n then p # insert_index n k v ps else (k, v) # p # ps
      | None \<Rightarrow> (k, v) # p # ps)"

text \<open>
  Writing an own data property: an existing one keeps its place, a new one is created
  at the place the enumeration order gives it.
\<close>

definition define_own :: "string \<Rightarrow> 'a \<Rightarrow> (string \<times> 'a) list \<Rightarrow> (string \<times> 'a) list" where
  "define_own k v ps =
     (if map_of ps k \<noteq> None then AList.update k v ps
      else case array_index k of
             Some n \<Rightarrow> insert_index n k v ps
           | None \<Rightarrow> ps @ [(k, v)])"

text \<open>
  The assignment \<^verbatim>\<open>o[k] = v\<close> on an object whose prototype is \<^verbatim>\<open>Object.prototype\<close>.
  Every member of \<^verbatim>\<open>Object.prototype\<close> but one is a writable data property, which an
  assignment shadows with an own property. The exception is \<^verbatim>\<open>__proto__\<close>, an accessor:
  the assignment calls its setter, which creates no own property (it replaces the
  prototype of \<^verbatim>\<open>o\<close> when \<^verbatim>\<open>v\<close> is an object and does nothing otherwise); only an
  object that already has an own \<^verbatim>\<open>__proto__\<close> property is written like any other.

  Two objects are written this way. The sub-mapping \<^verbatim>\<open>v\<close> of \<^verbatim>\<open>getValue\<close> only ever
  receives \<^verbatim>\<open>Object.prototype\<close> or a string under \<^verbatim>\<open>__proto__\<close>, so its prototype stays
  what it was. The result map in duplicate mode is assigned to only under a key that it
  reads as falsy, which \<^verbatim>\<open>__proto__\<close> never is, so its prototype stays what it was as
  well. In overwrite mode the prototype of the result map can be replaced; the
  assignment that follows it there is \<open>assign_map\<close> below.
\<close>

definition assign :: "string \<Rightarrow> 'a \<Rightarrow> (string \<times> 'a) list \<Rightarrow> (string \<times> 'a) list" where
  "assign k v ps =
     (if k = ''__proto__'' \<and> map_of ps k = None then ps else define_own k v ps)"

text \<open>\<^verbatim>\<open>map[key]\<close>, read from the result map.\<close>

definition map_get :: "resultmap \<Rightarrow> string \<Rightarrow> jsval" where
  "map_get m key =
     (case map_of m key of
        Some v \<Rightarrow> v
      | None \<Rightarrow> (case object_prototype key of Some c \<Rightarrow> Cell c | None \<Rightarrow> Cell Undefined))"

text \<open>Truthiness, as \<^verbatim>\<open>!o\<close> tests it: \<^verbatim>\<open>undefined\<close> and the empty string are falsy.\<close>

fun truthy :: "jsval \<Rightarrow> bool" where
  "truthy (Cell Undefined) = False"
| "truthy (Cell (Str s)) = (s \<noteq> [])"
| "truthy _ = True"

section \<open>The variables of \<^verbatim>\<open>build\<close> captured by its inner functions\<close>

record vars =
  keyDelimiter :: string
  duplicateKeys :: bool
  keyColNames :: "string list"
  valColNames :: "string list"

section \<open>Key Builder\<close>

text \<open>
  \<^verbatim>\<open>getKey\<close>: the loop carries the two mutable locals \<^verbatim>\<open>key\<close> and \<^verbatim>\<open>delim\<close>.
\<close>

definition getKey :: "vars \<Rightarrow> row \<Rightarrow> string" where
  "getKey vs row =
     fst (foldl (\<lambda>(key, delim) colName.
                   (key @ delim @ to_string (row_get row colName), keyDelimiter vs))
           ([], []) (keyColNames vs))"

section \<open>Value Projector\<close>

text \<open>
  \<^verbatim>\<open>valColNames[0]\<close> used as a property name: reading past the end of the array gives
  \<^verbatim>\<open>undefined\<close>, which names the property \<^verbatim>\<open>"undefined"\<close>.
\<close>

definition first_name :: "string list \<Rightarrow> string" where
  "first_name names = (case names of [] \<Rightarrow> ''undefined'' | colName # _ \<Rightarrow> colName)"

definition row_object :: "row \<Rightarrow> jsval" where
  "row_object row = Obj (map (\<lambda>(k, s). (k, Str s)) row)"

definition getValue :: "vars \<Rightarrow> row \<Rightarrow> jsval" where
  "getValue vs row =
     (if duplicateKeys vs then Cell (row_get row (first_name (valColNames vs)))
      else if length (valColNames vs) = 0 then row_object row
      else if length (valColNames vs) = 1 then Cell (row_get row (first_name (valColNames vs)))
      else Obj (foldl (\<lambda>v colName. assign colName (row_get row colName) v) [] (valColNames vs)))"

section \<open>Aggregator\<close>

datatype error = ConfigError | TypeError

text \<open>
  In overwrite mode a row with the key \<^verbatim>\<open>__proto__\<close> and an object as its value
  replaces the prototype of \<^verbatim>\<open>map\<close>, and what a later assignment \<^verbatim>\<open>map[key] = value\<close>
  does under a key that is not an own property depends on the property found along the
  new prototype chain. The state of the result map is therefore the list of its own
  properties together with its prototype.

  An ordinary object (a row, a sub-mapping) has writable data properties only, above
  \<^verbatim>\<open>Object.prototype\<close>. A built-in function has the read-only properties \<^verbatim>\<open>length\<close>
  and \<^verbatim>\<open>name\<close> (and \<^verbatim>\<open>prototype\<close>, for the constructor \<^verbatim>\<open>Object\<close>), under which
  the assignment is silently dropped, the program not being in strict mode; it inherits
  from \<^verbatim>\<open>Function.prototype\<close> the accessors \<^verbatim>\<open>arguments\<close> and \<^verbatim>\<open>caller\<close>, whose
  setter raises a \<^verbatim>\<open>TypeError\<close> (ECMAScript 2015 and later, as V8 implements it); its
  other properties are writable, above \<^verbatim>\<open>Object.prototype\<close>.
\<close>

type_synonym tracked = "resultmap \<times> jsval"

datatype written = Creates | Dropped | Setter | Raises

definition object_prototype_write :: "string \<Rightarrow> written" where
  "object_prototype_write k = (if k = ''__proto__'' then Setter else Creates)"

definition inherited_write :: "jsval \<Rightarrow> string \<Rightarrow> written" where
  "inherited_write proto k =
     (case proto of
        Obj ps \<Rightarrow> if map_of ps k \<noteq> None then Creates else object_prototype_write k
      | Cell (NativeFn n) \<Rightarrow>
          if k = ''length'' \<or> k = ''name'' \<or> (k = ''prototype'' \<and> n = ''Object'') then Dropped
          else if k = ''arguments'' \<or> k = ''caller'' then Raises
          else object_prototype_write k
      | _ \<Rightarrow> object_prototype_write k)"

fun is_object :: "jsval \<Rightarrow> bool" where
  "is_object (Cell Undefined) = False"
| "is_object (Cell (Str s)) = False"
| "is_object _ = True"

text \<open>\<^verbatim>\<open>map[key] = value\<close> on the result map with its prototype.\<close>

definition assign_map :: "string \<Rightarrow> jsval \<Rightarrow> tracked \<Rightarrow> error + tracked" where
  "assign_map key value t =
     (let (m, proto) = t in
      if map_of m key \<noteq> None then Inr (define_own key value m, proto)
      else case inherited_write proto key of
             Creates \<Rightarrow> Inr (define_own key value m, proto)
           | Dropped \<Rightarrow> Inr (m, proto)
           | Setter \<Rightarrow> Inr (m, if is_object value then value else proto)
           | Raises \<Rightarrow> Inl TypeError)"

definition doNormal :: "vars \<Rightarrow> row \<Rightarrow> tracked \<Rightarrow> error + tracked" where
  "doNormal vs row t = (let key = getKey vs row; value = getValue vs row in assign_map key value t)"

text \<open>
  \<^verbatim>\<open>doDupKeys\<close>: \<^verbatim>\<open>o\<close> is whatever \<^verbatim>\<open>map[key]\<close> evaluates to. When it is falsy a fresh
  array is stored under the key; \<^verbatim>\<open>o.push(value)\<close> then appends to the array that the
  map refers to. When \<^verbatim>\<open>o\<close> is truthy and not an array it has no \<^verbatim>\<open>push\<close> method, and
  the call raises a \<^verbatim>\<open>TypeError\<close>.
\<close>

definition doDupKeys :: "vars \<Rightarrow> row \<Rightarrow> resultmap \<Rightarrow> error + resultmap" where
  "doDupKeys vs row m =
     (let key = getKey vs row; value = getValue vs row; o' = map_get m key in
      if \<not> truthy o' then Inr (assign key (Arr [value]) m)
      else case o' of
             Arr xs \<Rightarrow> Inr (AList.update key (Arr (xs @ [value])) m)
           | _ \<Rightarrow> Inl TypeError)"

text \<open>
  The listener of the parser's \<^verbatim>\<open>data\<close> event. In duplicate mode the prototype of the
  map is never replaced: it is the original one whenever \<^verbatim>\<open>doDupKeys\<close> is called.
\<close>

definition on_data :: "vars \<Rightarrow> row \<Rightarrow> tracked \<Rightarrow> error + tracked" where
  "on_data vs row t =
     (if duplicateKeys vs then
        (case doDupKeys vs row (fst t) of Inl e \<Rightarrow> Inl e | Inr m \<Rightarrow> Inr (m, snd t))
      else doNormal vs row t)"

section \<open>Multi-Source Sequencer\<close>

text \<open>
  The CSV parser is an external collaborator. Piping a stream into it yields the rows
  of the stream as \<^verbatim>\<open>data\<close> events, followed by one \<^verbatim>\<open>finish\<close> event at the end of
  the stream or by one \<^verbatim>\<open>error\<close> event on malformed input.
\<close>

datatype ending = Finish | ParseError string

record parsed =
  rows :: "row list"
  ending :: ending

text \<open>What \<^verbatim>\<open>resolveStream\<close> returns, and \<^verbatim>\<open>process.stdin\<close>.\<close>

datatype rstream = Readable string | ReadStream string | Given nat | ProcessStdin

text \<open>
  The effects of a call of \<^verbatim>\<open>build\<close>, in the order they happen: a file opened by
  \<^verbatim>\<open>fs.createReadStream\<close>, a stream piped into the parser, a call of the callback
  (\<^verbatim>\<open>cb(err)\<close> or \<^verbatim>\<open>cb(null, map)\<close>), an exception raised. An exception is raised
  either by \<^verbatim>\<open>build\<close> itself, to its caller, or by a \<^verbatim>\<open>data\<close> listener, into the parser
  that emitted the row; what the parser does with it is its own business, and the run is
  followed no further.
\<close>

datatype event =
    CreateReadStream string
  | Pipe rstream
  | CallbackErr string
  | CallbackMap resultmap
  | Throw error

text \<open>A run: its events, and the own properties of \<^verbatim>\<open>map\<close> where it ends.\<close>

record run =
  events :: "event list"
  map_obj :: resultmap

text \<open>
  The rows of one source through the \<^verbatim>\<open>data\<close> listener, one after the other, up to
  the first row on which the listener raises. \<open>drain\<close> starts from a map with the
  original prototype and gives the own properties of the map.
\<close>

fun drain_tracked :: "vars \<Rightarrow> row list \<Rightarrow> tracked \<Rightarrow> tracked \<times> error option" where
  "drain_tracked vs [] t = (t, None)"
| "drain_tracked vs (row # rest) t =
     (case on_data vs row t of
        Inl e \<Rightarrow> (t, Some e)
      | Inr t' \<Rightarrow> drain_tracked vs rest t')"

definition drain :: "vars \<Rightarrow> row list \<Rightarrow> resultmap \<Rightarrow> resultmap \<times> error option" where
  "drain vs rs m =
     (case drain_tracked vs rs (m, Cell ObjectPrototype) of (t, e) \<Rightarrow> (fst t, e))"

text \<open>
  \<^verbatim>\<open>doIt\<close>: \<^verbatim>\<open>currentStream\<close> and \<^verbatim>\<open>map\<close> are the shared variables; the last
  argument is the prototype of \<^verbatim>\<open>map\<close>. The \<^verbatim>\<open>finish\<close> listener is the only place that
  calls \<^verbatim>\<open>doIt\<close> again; the \<^verbatim>\<open>error\<close> listener calls the callback and nothing else.
  Past the end of \<^verbatim>\<open>instream\<close> the element is \<^verbatim>\<open>undefined\<close> and \<^verbatim>\<open>.pipe\<close> on it
  raises.
\<close>

function doIt ::
  "(rstream \<Rightarrow> parsed) \<Rightarrow> vars \<Rightarrow> rstream list \<Rightarrow> nat \<Rightarrow> run \<Rightarrow> jsval \<Rightarrow> run" where
  "doIt parse vs instream currentStream st proto =
     (if currentStream = length instream
        then st\<lparr>events := events st @ [CallbackMap (map_obj st)]\<rparr>
      else if length instream < currentStream
        then st\<lparr>events := events st @ [Throw TypeError]\<rparr>
      else
        let src = parse (instream ! currentStream);
            piped = events st @ [Pipe (instream ! currentStream)]
        in case drain_tracked vs (rows src) (map_obj st, proto) of
             ((m, proto'), Some e) \<Rightarrow> \<lparr>events = piped @ [Throw e], map_obj = m\<rparr>
           | ((m, proto'), None) \<Rightarrow>
               (case ending src of
                  ParseError err \<Rightarrow> \<lparr>events = piped @ [CallbackErr err], map_obj = m\<rparr>
                | Finish \<Rightarrow>
                    doIt parse vs instream (currentStream + 1) \<lparr>events = piped, map_obj = m\<rparr>
                      proto'))"
  by pat_completeness auto
termination
  by (relation "measure (\<lambda>(parse, vs, instream, currentStream, st, proto).
        length instream - currentStream)")
     auto

section \<open>Build Orchestrator\<close>

text \<open>
  An option that may be missing, a single value or an array; what may be given as an
  input: a string or an open stream.
\<close>

datatype 'a arg = Absent | Single 'a | Several "'a list"

datatype input = InStr string | InStream nat

record options =
  opt_keyDelimiter :: "string option"
  opt_duplicateKeys :: bool
  opt_input :: "input arg"
  opt_keyColNames :: "string arg"
  opt_valColNames :: "string arg"

text \<open>\<^verbatim>\<open>resolveStream\<close>, with the file it opens.\<close>

definition resolveStream :: "input \<Rightarrow> rstream \<times> event list" where
  "resolveStream input =
     (case input of
        InStr s \<Rightarrow>
          if List.member s (CHR 0x0A) then (Readable s, [])
          else (ReadStream s, [CreateReadStream s])
      | InStream n \<Rightarrow> (Given n, []))"

text \<open>The \<^verbatim>\<open>!x\<close> tests of \<^verbatim>\<open>build\<close>: a missing option and the empty string are falsy.\<close>

definition no_input :: "input arg \<Rightarrow> bool" where
  "no_input i = (i = Absent \<or> i = Single (InStr []))"

definition no_names :: "string arg \<Rightarrow> bool" where
  "no_names n = (n = Absent \<or> n = Single [])"

definition as_array :: "'a arg \<Rightarrow> 'a list" where
  "as_array a = (case a of Absent \<Rightarrow> [] | Single x \<Rightarrow> [x] | Several xs \<Rightarrow> xs)"

definition resolve_inputs :: "input arg \<Rightarrow> rstream list \<times> event list" where
  "resolve_inputs i =
     (if no_input i then ([ProcessStdin], [])
      else (map (fst \<circ> resolveStream) (as_array i), concat (map (snd \<circ> resolveStream) (as_array i))))"

definition build_vars :: "options \<Rightarrow> vars" where
  "build_vars options =
     \<lparr>keyDelimiter =
        (case opt_keyDelimiter options of
           None \<Rightarrow> ''_''
         | Some d \<Rightarrow> if d = [] then ''_'' else d),
      duplicateKeys = opt_duplicateKeys options,
      keyColNames = as_array (opt_keyColNames options),
      valColNames = (if no_names (opt_valColNames options) then [] else as_array (opt_valColNames options))\<rparr>"

text \<open>
  \<^verbatim>\<open>build\<close>: the inputs are resolved first, the key columns are checked next, and
  \<^verbatim>\<open>doIt\<close> starts on the first stream last.
\<close>

definition build :: "(rstream \<Rightarrow> parsed) \<Rightarrow> options \<Rightarrow> run" where
  "build parse options =
     (let (instream, opened) = resolve_inputs (opt_input options) in
      if no_names (opt_keyColNames options)
        then \<lparr>events = opened @ [Throw ConfigError], map_obj = []\<rparr>
      else doIt parse (build_vars options) instream 0 \<lparr>events = opened, map_obj = []\<rparr>
             (Cell ObjectPrototype))"

section \<open>Notions used to state the properties\<close>

text \<open>The specification's reading of a key: the values joined by the delimiter.\<close>

fun join :: "string \<Rightarrow> string list \<Rightarrow> string" where
  "join d [] = []"
| "join d [x] = x"
| "join d (x # y # ys) = x @ d @ join d (y # ys)"

text \<open>
  The specification's reading of a sub-mapping: the listed columns, in listed order,
  each with the row's value.
\<close>

definition listed_submapping :: "row \<Rightarrow> string list \<Rightarrow> (string \<times> cell) list" where
  "listed_submapping row names = map (\<lambda>colName. (colName, row_get row colName)) names"

text \<open>
  The enumeration order of own property names: an array index stands before every other
  name and before every larger array index. \<open>first_listed\<close> keeps the first
  occurrence of every name.
\<close>

definition enumerated_before :: "string \<Rightarrow> string \<Rightarrow> bool" where
  "enumerated_before a b =
     (case array_index a of
        Some x \<Rightarrow> (case array_index b of Some y \<Rightarrow> x \<le> y | None \<Rightarrow> True)
      | None \<Rightarrow> array_index b = None)"

definition first_listed :: "string list \<Rightarrow> string list" where
  "first_listed names = rev (remdups (rev names))"

text \<open>A value of the result map that is an array with at least one element.\<close>

fun nonempty_array :: "jsval \<Rightarrow> bool" where
  "nonempty_array (Arr xs) = (xs \<noteq> [])"
| "nonempty_array _ = False"

definition sequences_only :: "resultmap \<Rightarrow> bool" where
  "sequences_only m = list_all nonempty_array (map snd m)"

text \<open>The sequence the result map holds under a key (empty when it holds none).\<close>

definition sequence_at :: "resultmap \<Rightarrow> string \<Rightarrow> jsval list" where
  "sequence_at m key = (case map_of m key of Some (Arr xs) \<Rightarrow> xs | _ \<Rightarrow> [])"

text \<open>Calls of the callback, and files opened, among the events.\<close>

fun is_callback :: "event \<Rightarrow> bool" where
  "is_callback (CallbackErr err) = True"
| "is_callback (CallbackMap m) = True"
| "is_callback _ = False"

fun is_open :: "event \<Rightarrow> bool" where
  "is_open (CreateReadStream path) = True"
| "is_open _ = False"

text \<open>A parser run that emits the given rows and finishes, whatever stream is piped.\<close>

definition emits :: "row list \<Rightarrow> rstream \<Rightarrow> parsed" where
  "emits rs s = \<lparr>rows = rs, ending = Finish\<rparr>"

text \<open>
  Three files for the examples: two well-formed ones with different columns, and one
  whose second line is malformed.
\<close>

definition sports_files :: "rstream \<Rightarrow> parsed" where
  "sports_files s =
     (if s = ReadStream ''sports.csv'' then
        \<lparr>rows = [[(''Name'', ''Joe''), (''Sport'', ''Soccer'')],
                 [(''Name'', ''Sally''), (''Sport'', ''Rugby'')]],
         ending = Finish\<rparr>
      else if s = ReadStream ''more.csv'' then
        \<lparr>rows = [[(''Name'', ''Joe''), (''Age'', ''7''), (''Sport'', ''Boxing'')]],
         ending = Finish\<rparr>
      else
        \<lparr>rows = [[(''Name'', ''Sally''), (''Sport'', ''Sailing'')]],
         ending = ParseError ''Invalid closing quote at line 3''\<rparr>)"

text \<open>Two files, the second holding a row whose key is \<^verbatim>\<open>__proto__\<close>.\<close>

definition proto_files :: "rstream \<Rightarrow> parsed" where
  "proto_files s =
     (if s = ReadStream ''first.csv'' then
        \<lparr>rows = [[(''Name'', ''Joe''), (''Sport'', ''Soccer'')]], ending = Finish\<rparr>
      else
        \<lparr>rows = [[(''Name'', ''__proto__''), (''Sport'', ''Boxing'')]], ending = Finish\<rparr>)"

section \<open>Properties of the Key Builder\<close>

lemma join_snoc: "xs \<noteq> [] \<Longrightarrow> join d (xs @ [x]) = join d xs @ d @ x"
  by (induction d xs rule: join.induct) auto

lemma getKey_loop:
  "foldl (\<lambda>(key, delim) colName. (key @ delim @ f colName, d)) (join d (map f pre), d) cols
     = (join d (map f (pre @ cols)), d)" if "pre \<noteq> []"
  using that
proof (induction cols arbitrary: pre)
  case Nil
  then show ?case by simp
next
  case (Cons c cols)
  have "join d (map f pre) @ d @ f c = join d (map f (pre @ [c]))"
    using Cons.prems by (simp add: join_snoc)
  with Cons.IH [of "pre @ [c]"] show ?case by simp
qed

lemma getKey_join:
  "getKey vs row = join (keyDelimiter vs) (map (\<lambda>c. to_string (row_get row c)) (keyColNames vs))"
proof (cases "keyColNames vs")
  case Nil
  then show ?thesis by (simp add: getKey_def)
next
  case (Cons c cols)
  have "foldl (\<lambda>(key, delim) colName.
                 (key @ delim @ to_string (row_get row colName), keyDelimiter vs))
          (join (keyDelimiter vs) (map (\<lambda>c. to_string (row_get row c)) [c]), keyDelimiter vs) cols
        = (join (keyDelimiter vs) (map (\<lambda>c. to_string (row_get row c)) ([c] @ cols)), keyDelimiter vs)"
    by (rule getKey_loop) simp
  with Cons show ?thesis by (simp add: getKey_def)
qed

text \<open>
  C4. For every row and every ordered key-column list, the composite key is the row's
  values for those columns (as strings), in order, joined by the delimiter, with no
  delimiter before the first or after the last value. For the row
  \<^verbatim>\<open>{First: "Bill", Last: "Smith"}\<close> and the key columns \<^verbatim>\<open>["First", "Last"]\<close> the key is
  \<^verbatim>\<open>"Bill_Smith"\<close> when no delimiter is given and \<^verbatim>\<open>"Bill-Smith"\<close> when the delimiter
  is \<^verbatim>\<open>"-"\<close>.
\<close>

theorem getKey_joins_values:
  "getKey vs row
     = join (keyDelimiter vs) (map (\<lambda>colName. to_string (row_get row colName)) (keyColNames vs))
   \<and> getKey (build_vars (options\<lparr>opt_keyColNames := Several [''First'', ''Last''],
                                   opt_keyDelimiter := None\<rparr>))
        [(''First'', ''Bill''), (''Last'', ''Smith'')] = ''Bill_Smith''
   \<and> getKey (build_vars (options\<lparr>opt_keyColNames := Several [''First'', ''Last''],
                                   opt_keyDelimiter := Some ''-''\<rparr>))
        [(''First'', ''Bill''), (''Last'', ''Smith'')] = ''Bill-Smith''"
  by (simp add: getKey_join build_vars_def as_array_def row_get_def)

section \<open>Properties of own-property lists\<close>

lemma set_insert_index: "set (insert_index n k v ps) = insert (k, v) (set ps)"
  by (induction ps) (auto split: option.splits)

lemma set_update_subset: "set (AList.update k v ps) \<subseteq> insert (k, v) (set ps)"
  by (induction ps) auto

lemma set_define_own: "set (define_own k v ps) \<subseteq> insert (k, v) (set ps)"
  using set_update_subset [of k v ps]
  by (auto simp: define_own_def set_insert_index split: option.splits)

lemma set_assign: "set (assign k v ps) \<subseteq> insert (k, v) (set ps)"
  using set_define_own [of k v ps] by (auto simp: assign_def)

lemma map_of_insert_index:
  "map_of ps k = None \<Longrightarrow> map_of (insert_index n k v ps) = (map_of ps)(k \<mapsto> v)"
proof (induction ps)
  case Nil
  then show ?case by simp
next
  case (Cons p ps)
  then have "fst p \<noteq> k" and "map_of ps k = None"
    by (cases p; auto split: if_splits)+
  with Cons.IH show ?case
    by (cases p) (auto split: option.splits simp: fun_upd_twist)
qed

lemma map_of_snoc:
  "map_of ps k = None \<Longrightarrow> map_of (ps @ [(k, v)]) = (map_of ps)(k \<mapsto> v)"
  by (auto simp: map_add_def fun_eq_iff split: option.splits)

lemma map_of_define_own: "map_of (define_own k v ps) = (map_of ps)(k \<mapsto> v)"
  by (auto simp: define_own_def update_conv' map_of_insert_index map_of_snoc
      simp del: map_of_append split: option.splits)

lemma keys_insert_index: "set (map fst (insert_index n k v ps)) = insert k (set (map fst ps))"
  by (induction ps) (auto split: option.splits)

lemma distinct_insert_index:
  "distinct (map fst ps) \<Longrightarrow> k \<notin> set (map fst ps) \<Longrightarrow> distinct (map fst (insert_index n k v ps))"
proof (induction ps)
  case Nil
  then show ?case by simp
next
  case (Cons p ps)
  then show ?case
    using keys_insert_index [of n k v ps] by (auto split: option.splits)
qed

lemma distinct_define_own:
  "distinct (map fst ps) \<Longrightarrow> distinct (map fst (define_own k v ps))"
  by (auto simp: define_own_def distinct_update distinct_insert_index map_of_eq_None_iff
      split: option.splits)

lemma enumerated_before_trans:
  "enumerated_before a b \<Longrightarrow> enumerated_before b c \<Longrightarrow> enumerated_before a c"
  by (auto simp: enumerated_before_def split: option.splits)

lemma enumerated_insert_index:
  "sorted_wrt enumerated_before (map fst ps) \<Longrightarrow> array_index k = Some n \<Longrightarrow>
   sorted_wrt enumerated_before (map fst (insert_index n k v ps))"
proof (induction ps)
  case Nil
  then show ?case by simp
next
  case (Cons p ps)
  show ?case
  proof (cases "array_index (fst p)")
    case None
    with Cons.prems have "enumerated_before k x" if "x \<in> set (map fst (p # ps))" for x
      using that by (auto simp: enumerated_before_def split: option.splits)
    with None Cons.prems show ?thesis by auto
  next
    case (Some n')
    show ?thesis
    proof (cases "n' < n")
      case True
      have "enumerated_before (fst p) x" if "x \<in> set (map fst (insert_index n k v ps))" for x
        using that Cons.prems True Some keys_insert_index [of n k v ps]
        by (auto simp: enumerated_before_def)
      with True Some Cons show ?thesis by auto
    next
      case False
      with Some Cons.prems have first: "enumerated_before k (fst p)"
        by (simp add: enumerated_before_def)
      have "enumerated_before k x" if "x \<in> set (map fst ps)" for x
        using that Cons.prems(1) first by (auto intro: enumerated_before_trans)
      with False Some Cons.prems first show ?thesis by auto
    qed
  qed
qed

lemma enumerated_define_own:
  assumes "sorted_wrt enumerated_before (map fst ps)"
  shows "sorted_wrt enumerated_before (map fst (define_own k v ps))"
proof (cases "map_of ps k")
  case (Some w)
  then have "k \<in> set (map fst ps)" by (metis map_of_eq_None_iff option.distinct(1) set_map)
  with Some assms show ?thesis by (simp add: define_own_def update_keys)
next
  case None
  show ?thesis
  proof (cases "array_index k")
    case (Some n)
    with None assms show ?thesis by (simp add: define_own_def enumerated_insert_index)
  next
    case no_index: None
    then have "enumerated_before x k" for x
      by (simp add: enumerated_before_def split: option.splits)
    with None no_index assms show ?thesis
      by (simp add: define_own_def sorted_wrt_append)
  qed
qed

lemma names_insert_index:
  "array_index k = Some n \<Longrightarrow>
   filter (\<lambda>c. array_index c = None) (map fst (insert_index n k v ps))
     = filter (\<lambda>c. array_index c = None) (map fst ps)"
  by (induction ps) (auto split: option.splits)

lemma names_define_own:
  "filter (\<lambda>c. array_index c = None) (map fst (define_own k v ps))
     = filter (\<lambda>c. array_index c = None) (map fst ps)
       @ (if k \<notin> set (map fst ps) \<and> array_index k = None then [k] else [])"
proof (cases "map_of ps k")
  case (Some w)
  then have "k \<in> set (map fst ps)" by (metis map_of_eq_None_iff option.distinct(1) set_map)
  with Some show ?thesis by (simp add: define_own_def update_keys)
next
  case None
  then have "k \<notin> set (map fst ps)" by (simp add: map_of_eq_None_iff)
  with None show ?thesis
    by (auto simp: define_own_def names_insert_index split: option.splits)
qed

lemma keys_define_own: "set (map fst (define_own k v ps)) = insert k (set (map fst ps))"
proof -
  have "dom (map_of (define_own k v ps)) = insert k (dom (map_of ps))"
    by (simp add: map_of_define_own)
  then show ?thesis by (simp add: dom_map_of_conv_image_fst)
qed

section \<open>Properties of the Value Projector\<close>

lemma assign_loop_map_of:
  "''__proto__'' \<notin> set names \<Longrightarrow>
   map_of (foldl (\<lambda>v colName. assign colName (f colName) v) ps names) c
     = (if c \<in> set names then Some (f c) else map_of ps c)"
proof (induction names arbitrary: ps)
  case Nil
  then show ?case by simp
next
  case (Cons n names)
  then have "assign n (f n) ps = define_own n (f n) ps"
    by (auto simp: assign_def)
  with Cons show ?case
    by (auto simp: map_of_define_own)
qed

lemma assign_loop_distinct:
  "distinct (map fst ps) \<Longrightarrow>
   distinct (map fst (foldl (\<lambda>v colName. assign colName (f colName) v) ps names))"
proof (induction names arbitrary: ps)
  case Nil
  then show ?case by simp
next
  case (Cons n names)
  have "distinct (map fst (assign n (f n) ps))"
    using Cons.prems by (simp add: assign_def distinct_define_own)
  then show ?case using Cons.IH by simp
qed

lemma assign_loop_listed:
  "distinct names \<Longrightarrow> list_all (\<lambda>c. array_index c = None) names \<Longrightarrow>
   ''__proto__'' \<notin> set names \<Longrightarrow> set names \<inter> set (map fst ps) = {} \<Longrightarrow>
   foldl (\<lambda>v colName. assign colName (f colName) v) ps names
     = ps @ map (\<lambda>colName. (colName, f colName)) names"
proof (induction names arbitrary: ps)
  case Nil
  then show ?case by simp
next
  case (Cons n names)
  from Cons.prems have absent: "map_of ps n = None"
    by (auto simp: map_of_eq_None_iff)
  with Cons.prems have step: "assign n (f n) ps = ps @ [(n, f n)]"
    by (auto simp: assign_def define_own_def)
  have "foldl (\<lambda>v colName. assign colName (f colName) v) (ps @ [(n, f n)]) names
      = (ps @ [(n, f n)]) @ map (\<lambda>colName. (colName, f colName)) names"
    using Cons.prems by (intro Cons.IH) auto
  with step show ?case by simp
qed

lemma assign_loop_enumeration:
  assumes "''__proto__'' \<notin> set names"
  shows "set (map fst (foldl (\<lambda>v colName. assign colName (f colName) v) [] names)) = set names
       \<and> sorted_wrt enumerated_before (map fst (foldl (\<lambda>v colName. assign colName (f colName) v) [] names))
       \<and> filter (\<lambda>c. array_index c = None) (map fst (foldl (\<lambda>v colName. assign colName (f colName) v) [] names))
           = filter (\<lambda>c. array_index c = None) (first_listed names)"
  using assms
proof (induction names rule: rev_induct)
  case Nil
  then show ?case by (simp add: first_listed_def)
next
  case (snoc n names)
  let ?v = "foldl (\<lambda>v colName. assign colName (f colName) v) [] names"
  from snoc have keys: "set (map fst ?v) = set names"
    and order: "sorted_wrt enumerated_before (map fst ?v)"
    and listed: "filter (\<lambda>c. array_index c = None) (map fst ?v)
        = filter (\<lambda>c. array_index c = None) (first_listed names)"
    by simp_all
  from snoc.prems have "n \<noteq> ''__proto__''" by auto
  then have "assign n (f n) ?v = define_own n (f n) ?v"
    by (simp add: assign_def)
  then have step: "foldl (\<lambda>v colName. assign colName (f colName) v) [] (names @ [n])
      = define_own n (f n) ?v"
    by simp
  have "set (map fst (define_own n (f n) ?v)) = set (names @ [n])"
    using keys keys_define_own [of n "f n" ?v] by simp
  moreover have "sorted_wrt enumerated_before (map fst (define_own n (f n) ?v))"
    using order by (rule enumerated_define_own)
  moreover have "filter (\<lambda>c. array_index c = None) (map fst (define_own n (f n) ?v))
      = filter (\<lambda>c. array_index c = None) (first_listed (names @ [n]))"
    using keys listed by (simp add: names_define_own first_listed_def)
  ultimately show ?case using step by simp
qed

text \<open>
  C3, as amended. With \<^verbatim>\<open>duplicateKeys\<close> false the projected value is the entire row
  when no value column is listed, and the row's value for the column when exactly one
  is listed. When two or more are listed (none of them \<^verbatim>\<open>__proto__\<close>) it is a new
  sub-mapping with exactly one entry for every listed column, holding the row's value,
  and no entry for any other column. Its entries are enumerated as those of every
  object: the array indices first, in ascending order, then the other names in the
  order of their first listing; so they stand in listed order when the listed names are
  distinct and none of them is an array index.
\<close>

theorem getValue_projection:
  assumes "\<not> duplicateKeys vs"
  shows "(valColNames vs = [] \<longrightarrow> getValue vs row = row_object row)
       \<and> (\<forall>colName. valColNames vs = [colName] \<longrightarrow> getValue vs row = Cell (row_get row colName))
       \<and> (2 \<le> length (valColNames vs) \<and> ''__proto__'' \<notin> set (valColNames vs) \<longrightarrow>
            (\<exists>v. getValue vs row = Obj v \<and> distinct (map fst v)
               \<and> (\<forall>colName. map_of v colName
                     = (if colName \<in> set (valColNames vs) then Some (row_get row colName) else None))
               \<and> sorted_wrt enumerated_before (map fst v)
               \<and> filter (\<lambda>c. array_index c = None) (map fst v)
                   = filter (\<lambda>c. array_index c = None) (first_listed (valColNames vs))
               \<and> (distinct (valColNames vs) \<and> list_all (\<lambda>c. array_index c = None) (valColNames vs)
                    \<longrightarrow> v = listed_submapping row (valColNames vs))))"
proof (intro conjI impI allI)
  show "getValue vs row = row_object row" if "valColNames vs = []"
    using assms that by (simp add: getValue_def)
  show "getValue vs row = Cell (row_get row colName)" if "valColNames vs = [colName]" for colName
    using assms that by (simp add: getValue_def first_name_def)
  show "\<exists>v. getValue vs row = Obj v \<and> distinct (map fst v)
          \<and> (\<forall>colName. map_of v colName
                = (if colName \<in> set (valColNames vs) then Some (row_get row colName) else None))
          \<and> sorted_wrt enumerated_before (map fst v)
          \<and> filter (\<lambda>c. array_index c = None) (map fst v)
              = filter (\<lambda>c. array_index c = None) (first_listed (valColNames vs))
          \<and> (distinct (valColNames vs) \<and> list_all (\<lambda>c. array_index c = None) (valColNames vs)
               \<longrightarrow> v = listed_submapping row (valColNames vs))"
    if many: "2 \<le> length (valColNames vs) \<and> ''__proto__'' \<notin> set (valColNames vs)"
  proof -
    let ?v = "foldl (\<lambda>v colName. assign colName (row_get row colName) v) [] (valColNames vs)"
    have "getValue vs row = Obj ?v"
      using assms many by (auto simp: getValue_def)
    moreover have "distinct (map fst ?v)"
      by (rule assign_loop_distinct) simp
    moreover have "map_of ?v colName
        = (if colName \<in> set (valColNames vs) then Some (row_get row colName) else None)" for colName
      using many by (simp add: assign_loop_map_of)
    moreover have "sorted_wrt enumerated_before (map fst ?v)"
      and "filter (\<lambda>c. array_index c = None) (map fst ?v)
        = filter (\<lambda>c. array_index c = None) (first_listed (valColNames vs))"
      using many assign_loop_enumeration [of "valColNames vs" "row_get row"] by simp_all
    moreover have "?v = listed_submapping row (valColNames vs)"
      if "distinct (valColNames vs) \<and> list_all (\<lambda>c. array_index c = None) (valColNames vs)"
      using that many assign_loop_listed [of "valColNames vs" "[]" "row_get row"]
      by (simp add: listed_submapping_def)
    ultimately show ?thesis by blast
  qed
qed

text \<open>
  The three cases at the rows of the specification's examples: no value column, the
  value column \<^verbatim>\<open>SSN\<close>, and the value columns \<^verbatim>\<open>SSN\<close> and \<^verbatim>\<open>Birthplace\<close>.
\<close>

theorem getValue_projection_witness:
  "getValue \<lparr>keyDelimiter = ''_'', duplicateKeys = False, keyColNames = [''Name''], valColNames = []\<rparr>
     [(''Name'', ''Bill''), (''SSN'', ''111-22-3333'')]
     = Obj [(''Name'', Str ''Bill''), (''SSN'', Str ''111-22-3333'')]
   \<and> getValue \<lparr>keyDelimiter = ''_'', duplicateKeys = False, keyColNames = [''Name''],
               valColNames = [''SSN'']\<rparr>
       [(''Name'', ''Bill''), (''SSN'', ''111-22-3333'')]
     = Cell (Str ''111-22-3333'')
   \<and> getValue \<lparr>keyDelimiter = ''_'', duplicateKeys = False, keyColNames = [''Name''],
               valColNames = [''SSN'', ''Birthplace'']\<rparr>
       [(''Name'', ''Bill''), (''SSN'', ''111-22-3333''), (''Birthplace'', ''Rochester NY''),
        (''Birthdate'', ''3/11/1934'')]
     = Obj [(''SSN'', Str ''111-22-3333''), (''Birthplace'', Str ''Rochester NY'')]"
proof -
  let ?none = "\<lparr>keyDelimiter = ''_'', duplicateKeys = False, keyColNames = [''Name''],
                valColNames = []\<rparr>"
  let ?one = "\<lparr>keyDelimiter = ''_'', duplicateKeys = False, keyColNames = [''Name''],
               valColNames = [''SSN'']\<rparr>"
  let ?two = "\<lparr>keyDelimiter = ''_'', duplicateKeys = False, keyColNames = [''Name''],
               valColNames = [''SSN'', ''Birthplace'']\<rparr>"
  let ?short = "[(''Name'', ''Bill''), (''SSN'', ''111-22-3333'')]"
  let ?long = "[(''Name'', ''Bill''), (''SSN'', ''111-22-3333''), (''Birthplace'', ''Rochester NY''),
                (''Birthdate'', ''3/11/1934'')]"
  have names: "array_index ''SSN'' = None" "array_index ''Birthplace'' = None"
    by (simp_all add: array_index_def is_digit_def)
  have "getValue ?none ?short = row_object ?short"
    using getValue_projection [of ?none ?short] by simp
  moreover have "getValue ?one ?short = Cell (row_get ?short ''SSN'')"
    using getValue_projection [of ?one ?short] by simp
  moreover have "getValue ?two ?long = Obj (listed_submapping ?long [''SSN'', ''Birthplace''])"
    using getValue_projection [of ?two ?long] names by auto
  ultimately show ?thesis
    by (simp add: row_object_def row_get_def listed_submapping_def)
qed

text \<open>
  C3 as stated fails on the listed order: for the value columns \<^verbatim>\<open>["2021", "2020"]\<close>
  the sub-mapping enumerates \<^verbatim>\<open>2020\<close> before \<^verbatim>\<open>2021\<close>, since both names are array
  indices.
\<close>

theorem getValue_index_names_reordered:
  "getValue \<lparr>keyDelimiter = ''_'', duplicateKeys = False, keyColNames = [''Name''],
             valColNames = [''2021'', ''2020'']\<rparr>
     [(''2020'', ''3''), (''2021'', ''5''), (''Name'', ''Bill'')]
     = Obj [(''2020'', Str ''3''), (''2021'', Str ''5'')]
   \<and> listed_submapping [(''2020'', ''3''), (''2021'', ''5''), (''Name'', ''Bill'')] [''2021'', ''2020'']
     = [(''2021'', Str ''5''), (''2020'', Str ''3'')]"
  by code_simp

lemma row_get_own: "map_of row colName = Some s \<Longrightarrow> row_get row colName = Str s"
  by (simp add: row_get_def)

lemma row_get_absent:
  "map_of row colName = None \<Longrightarrow> object_prototype colName = None \<Longrightarrow>
   row_get row colName = Undefined"
  by (simp add: row_get_def)

text \<open>
  C8, at a failing input. A column that the row lacks is looked up in
  \<^verbatim>\<open>Object.prototype\<close>: for the row \<^verbatim>\<open>{Name: "Bill"}\<close> the value column
  \<^verbatim>\<open>constructor\<close> projects to the built-in function \<^verbatim>\<open>Object\<close>, not to
  \<^verbatim>\<open>undefined\<close>, and the key column \<^verbatim>\<open>constructor\<close> contributes the text of that
  function to the key.
\<close>

theorem absent_inherited_column_not_undefined:
  "getValue \<lparr>keyDelimiter = ''_'', duplicateKeys = False, keyColNames = [''Name''],
             valColNames = [''constructor'']\<rparr> [(''Name'', ''Bill'')]
     = Cell (NativeFn ''Object'')
   \<and> getKey \<lparr>keyDelimiter = ''_'', duplicateKeys = False, keyColNames = [''Name'', ''constructor''],
             valColNames = []\<rparr> [(''Name'', ''Bill'')]
     = ''Bill_function Object() { [native code] }''"
  by code_simp

section \<open>Properties of the Aggregator\<close>

lemma drain_tracked_append:
  "drain_tracked vs (xs @ ys) t =
     (case drain_tracked vs xs t of
        (t1, None) \<Rightarrow> drain_tracked vs ys t1
      | (t1, Some e) \<Rightarrow> (t1, Some e))"
  by (induction xs arbitrary: t) (auto split: sum.splits)

lemma drain_tracked_None_append:
  "drain_tracked vs (xs @ ys) t = (t', None) \<longleftrightarrow>
     (\<exists>t1. drain_tracked vs xs t = (t1, None) \<and> drain_tracked vs ys t1 = (t', None))"
  by (auto simp: drain_tracked_append split: prod.splits option.splits)

lemma drain_None:
  "drain vs rs m = (m', None) \<longleftrightarrow>
     (\<exists>proto. drain_tracked vs rs (m, Cell ObjectPrototype) = ((m', proto), None))"
  by (auto simp: drain_def split: prod.splits)

lemma on_data_duplicate:
  "duplicateKeys vs \<Longrightarrow>
   on_data vs row (m, proto)
     = (case doDupKeys vs row m of Inl e \<Rightarrow> Inl e | Inr m' \<Rightarrow> Inr (m', proto))"
  by (simp add: on_data_def split: sum.split)

lemma on_data_overwrite:
  "\<not> duplicateKeys vs \<Longrightarrow>
   on_data vs row t = assign_map (getKey vs row) (getValue vs row) t"
  by (simp add: on_data_def doNormal_def)

lemma sequences_only_iff: "sequences_only m \<longleftrightarrow> (\<forall>(k, v) \<in> set m. nonempty_array v)"
  by (auto simp: sequences_only_def list_all_iff)

lemma doDupKeys_sequences_only:
  assumes "sequences_only m" and "doDupKeys vs row m = Inr m'"
  shows "sequences_only m'"
proof -
  let ?key = "getKey vs row" and ?val = "getValue vs row"
  show ?thesis
  proof (cases "truthy (map_get m ?key)")
    case False
    with assms(2) have "m' = assign ?key (Arr [?val]) m"
      by (simp add: doDupKeys_def Let_def)
    with assms(1) set_assign [of ?key "Arr [?val]" m] show ?thesis
      by (auto simp: sequences_only_iff)
  next
    case True
    with assms(2) obtain xs where "m' = AList.update ?key (Arr (xs @ [?val])) m"
      by (auto simp: doDupKeys_def Let_def split: jsval.splits)
    with assms(1) set_update_subset [of ?key "Arr (xs @ [?val])" m] show ?thesis
      by (auto simp: sequences_only_iff)
  qed
qed

lemma drain_tracked_sequences_only:
  "duplicateKeys vs \<Longrightarrow> sequences_only (fst t) \<Longrightarrow>
   sequences_only (fst (fst (drain_tracked vs rs t)))"
proof (induction rs arbitrary: t)
  case Nil
  then show ?case by simp
next
  case (Cons row rs)
  obtain m proto where t: "t = (m, proto)" by force
  show ?case
  proof (cases "doDupKeys vs row m")
    case (Inl e)
    with Cons.prems t show ?thesis by (simp add: on_data_duplicate)
  next
    case (Inr m')
    with Cons.prems t have "sequences_only m'"
      by (auto dest: doDupKeys_sequences_only)
    with Cons.IH [of "(m', proto)"] Cons.prems(1) Inr t show ?thesis
      by (simp add: on_data_duplicate)
  qed
qed

lemma drain_sequences_only:
  "duplicateKeys vs \<Longrightarrow> sequences_only m \<Longrightarrow> sequences_only (fst (drain vs rs m))"
  using drain_tracked_sequences_only [of vs "(m, Cell ObjectPrototype)" rs]
  by (auto simp: drain_def split: prod.splits)

text \<open>
  What the two policies do away from the members of \<^verbatim>\<open>Object.prototype\<close>. In
  overwrite mode, when no row has the key \<^verbatim>\<open>__proto__\<close>, the prototype of the map stays
  the original one, no listener call raises, and the map holds under every key the
  value of the last row with that key. In duplicate mode, when no key is the name of an
  inherited member, no listener call raises and the map holds under every key the
  values of the rows with that key, in the order of their arrival.
\<close>

lemma assign_map_original:
  "key \<noteq> ''__proto__'' \<Longrightarrow>
   assign_map key value (m, Cell ObjectPrototype)
     = Inr (define_own key value m, Cell ObjectPrototype)"
  by (simp add: assign_map_def inherited_write_def object_prototype_write_def)

lemma drain_overwrite:
  "\<not> duplicateKeys vs \<Longrightarrow> list_all (\<lambda>r. getKey vs r \<noteq> ''__proto__'') rs \<Longrightarrow>
   drain_tracked vs rs (m, Cell ObjectPrototype)
     = ((foldl (\<lambda>m r. define_own (getKey vs r) (getValue vs r) m) m rs, Cell ObjectPrototype),
        None)"
  by (induction rs arbitrary: m) (simp_all add: on_data_overwrite assign_map_original)

lemma overwrite_keeps_other_keys:
  "list_all (\<lambda>r. getKey vs r \<noteq> k) rs \<Longrightarrow>
   map_of (foldl (\<lambda>m r. define_own (getKey vs r) (getValue vs r) m) m rs) k = map_of m k"
  by (induction rs arbitrary: m) (auto simp: map_of_define_own)

lemma overwrite_last_writer_wins:
  assumes "\<not> duplicateKeys vs"
      and "list_all (\<lambda>r. getKey vs r \<noteq> ''__proto__'') (earlier @ row # later)"
      and "list_all (\<lambda>r. getKey vs r \<noteq> getKey vs row) later"
  shows "\<exists>m'. drain vs (earlier @ row # later) m = (m', None)
           \<and> map_of m' (getKey vs row) = Some (getValue vs row)"
proof -
  let ?store = "\<lambda>m r. define_own (getKey vs r) (getValue vs r) m"
  have "drain vs (earlier @ row # later) m = (foldl ?store m (earlier @ row # later), None)"
    using assms(1,2) by (simp add: drain_def drain_overwrite)
  moreover have "map_of (foldl ?store m (earlier @ row # later)) (getKey vs row)
      = Some (getValue vs row)"
    using overwrite_keeps_other_keys [OF assms(3), of "?store (foldl ?store m earlier) row"]
    by (simp add: map_of_define_own)
  ultimately show ?thesis by blast
qed

lemma map_of_assign:
  "k \<noteq> ''__proto__'' \<Longrightarrow> map_of (assign k v ps) = (map_of ps)(k \<mapsto> v)"
  by (simp add: assign_def map_of_define_own)

lemma doDupKeys_appends:
  assumes "sequences_only m" and "object_prototype (getKey vs row) = None"
  shows "\<exists>m'. doDupKeys vs row m = Inr m'
           \<and> map_of m' = (map_of m)(getKey vs row \<mapsto> Arr (sequence_at m (getKey vs row) @ [getValue vs row]))"
proof (cases "map_of m (getKey vs row)")
  case None
  from assms(2) have "getKey vs row \<noteq> ''__proto__''"
    by (auto simp: object_prototype_def)
  with None assms(2) show ?thesis
    by (simp add: doDupKeys_def map_get_def sequence_at_def map_of_assign)
next
  case (Some v)
  then have "(getKey vs row, v) \<in> set m" by (rule map_of_SomeD)
  with assms(1) have "nonempty_array v" by (auto simp: sequences_only_iff)
  then obtain xs where "v = Arr xs" by (cases v) auto
  with Some show ?thesis
    by (simp add: doDupKeys_def map_get_def sequence_at_def update_conv')
qed

lemma duplicate_mode_arrival_order:
  assumes "duplicateKeys vs"
      and "list_all (\<lambda>r. object_prototype (getKey vs r) = None) rs"
  shows "\<exists>m. drain vs rs [] = (m, None) \<and> sequences_only m
           \<and> (\<forall>k. sequence_at m k = map (getValue vs) (filter (\<lambda>r. getKey vs r = k) rs))"
proof -
  have "\<exists>m. drain_tracked vs rs ([], Cell ObjectPrototype) = ((m, Cell ObjectPrototype), None)
          \<and> sequences_only m
          \<and> (\<forall>k. sequence_at m k = map (getValue vs) (filter (\<lambda>r. getKey vs r = k) rs))"
    using assms(2)
  proof (induction rs rule: rev_induct)
    case Nil
    then show ?case by (simp add: sequence_at_def sequences_only_def)
  next
    case (snoc row rs)
    then obtain m where
      m: "drain_tracked vs rs ([], Cell ObjectPrototype) = ((m, Cell ObjectPrototype), None)"
        "sequences_only m"
      and seqs: "\<And>k. sequence_at m k = map (getValue vs) (filter (\<lambda>r. getKey vs r = k) rs)"
      by auto
    from snoc.prems have "object_prototype (getKey vs row) = None" by simp
    from doDupKeys_appends [OF m(2) this] obtain m' where
      m': "doDupKeys vs row m = Inr m'"
      and look: "map_of m'
        = (map_of m)(getKey vs row \<mapsto> Arr (sequence_at m (getKey vs row) @ [getValue vs row]))"
      by blast
    have "drain_tracked vs (rs @ [row]) ([], Cell ObjectPrototype)
        = ((m', Cell ObjectPrototype), None)"
      using m(1) m' assms(1) by (simp add: drain_tracked_append on_data_duplicate)
    moreover have "sequences_only m'"
      using m(2) m' by (rule doDupKeys_sequences_only)
    moreover have "sequence_at m' k
        = map (getValue vs) (filter (\<lambda>r. getKey vs r = k) (rs @ [row]))" for k
      using seqs [of k] look by (auto simp: sequence_at_def)
    ultimately show ?case by blast
  qed
  then show ?thesis by (auto simp: drain_def)
qed

text \<open>
  C1, at a failing input. In duplicate mode the row \<^verbatim>\<open>{Name: "constructor", Sport: "Soccer"}\<close>
  has the key \<^verbatim>\<open>constructor\<close>; \<^verbatim>\<open>map[key]\<close> is the inherited function \<^verbatim>\<open>Object\<close>,
  which is truthy, so no sequence is started and \<^verbatim>\<open>o.push(value)\<close> raises a
  \<^verbatim>\<open>TypeError\<close> in the listener: nothing is appended to the map.
\<close>

theorem duplicate_mode_inherited_key_raises:
  "build (emits [[(''Name'', ''constructor''), (''Sport'', ''Soccer'')]])
     \<lparr>opt_keyDelimiter = None, opt_duplicateKeys = True, opt_input = Absent,
      opt_keyColNames = Several [''Name''], opt_valColNames = Several [''Sport'']\<rparr>
   = \<lparr>events = [Pipe ProcessStdin, Throw TypeError], map_obj = []\<rparr>"
  by code_simp

text \<open>
  C2, at a failing input. In overwrite mode two rows with the key \<^verbatim>\<open>__proto__\<close> leave
  the result map empty: the assignment \<^verbatim>\<open>map[key] = value\<close> reaches the setter of
  \<^verbatim>\<open>Object.prototype\<close> and stores nothing, so the map does not hold the value of the
  later row.
\<close>

theorem overwrite_mode_proto_key_not_stored:
  "build (emits [[(''Name'', ''__proto__''), (''SSN'', ''111'')],
                 [(''Name'', ''__proto__''), (''SSN'', ''222'')]])
     \<lparr>opt_keyDelimiter = None, opt_duplicateKeys = False, opt_input = Absent,
      opt_keyColNames = Several [''Name''], opt_valColNames = Several [''SSN'']\<rparr>
   = \<lparr>events = [Pipe ProcessStdin, CallbackMap []], map_obj = []\<rparr>"
  by code_simp

section \<open>Properties of the Multi-Source Sequencer\<close>

declare doIt.simps [simp del]

lemma doIt_end:
  "doIt parse vs instream (length instream) st proto
     = st\<lparr>events := events st @ [CallbackMap (map_obj st)]\<rparr>"
  by (subst doIt.simps) simp

lemma doIt_step:
  "doIt parse vs (past @ s # todo) (length past) st proto =
     (case drain_tracked vs (rows (parse s)) (map_obj st, proto) of
        ((m, proto'), Some e) \<Rightarrow> \<lparr>events = events st @ [Pipe s, Throw e], map_obj = m\<rparr>
      | ((m, proto'), None) \<Rightarrow>
          (case ending (parse s) of
             ParseError err \<Rightarrow> \<lparr>events = events st @ [Pipe s, CallbackErr err], map_obj = m\<rparr>
           | Finish \<Rightarrow> doIt parse vs ((past @ [s]) @ todo) (length (past @ [s]))
                        \<lparr>events = events st @ [Pipe s], map_obj = m\<rparr> proto'))"
  by (subst doIt.simps) (simp add: Let_def split: prod.split option.split ending.split)

lemma doIt_all_finish:
  "list_all (\<lambda>s. ending (parse s) = Finish) todo \<Longrightarrow>
   drain_tracked vs (concat (map (\<lambda>s. rows (parse s)) todo)) (m, proto) = ((m', proto'), None) \<Longrightarrow>
   doIt parse vs (past @ todo) (length past) \<lparr>events = evs, map_obj = m\<rparr> proto
     = \<lparr>events = evs @ map Pipe todo @ [CallbackMap m'], map_obj = m'\<rparr>"
proof (induction todo arbitrary: past evs m proto)
  case Nil
  then show ?case using doIt_end [of parse vs past] by simp
next
  case (Cons s todo)
  from Cons.prems(2) obtain m1 proto1 where
    m1: "drain_tracked vs (rows (parse s)) (m, proto) = ((m1, proto1), None)"
    and rest: "drain_tracked vs (concat (map (\<lambda>s. rows (parse s)) todo)) (m1, proto1)
      = ((m', proto'), None)"
    by (auto simp: drain_tracked_None_append)
  from Cons.prems(1) have fin: "ending (parse s) = Finish"
    and all: "list_all (\<lambda>s. ending (parse s) = Finish) todo"
    by simp_all
  have "doIt parse vs (past @ s # todo) (length past) \<lparr>events = evs, map_obj = m\<rparr> proto
      = doIt parse vs ((past @ [s]) @ todo) (length (past @ [s]))
          \<lparr>events = evs @ [Pipe s], map_obj = m1\<rparr> proto1"
    by (simp add: doIt_step m1 fin del: append_assoc)
  also have "\<dots> = \<lparr>events = (evs @ [Pipe s]) @ map Pipe todo @ [CallbackMap m'], map_obj = m'\<rparr>"
    by (rule Cons.IH [OF all rest])
  finally show ?case by simp
qed

lemma doIt_parse_failure:
  "list_all (\<lambda>s. ending (parse s) = Finish) pre \<Longrightarrow>
   ending (parse failing) = ParseError err \<Longrightarrow>
   drain_tracked vs (concat (map (\<lambda>s. rows (parse s)) (pre @ [failing]))) (m, proto)
     = ((m', proto'), None) \<Longrightarrow>
   doIt parse vs (past @ pre @ failing # post) (length past) \<lparr>events = evs, map_obj = m\<rparr> proto
     = \<lparr>events = evs @ map Pipe (pre @ [failing]) @ [CallbackErr err], map_obj = m'\<rparr>"
proof (induction pre arbitrary: past evs m proto)
  case Nil
  then show ?case by (simp add: doIt_step)
next
  case (Cons s pre)
  from Cons.prems(3) obtain m1 proto1 where
    m1: "drain_tracked vs (rows (parse s)) (m, proto) = ((m1, proto1), None)"
    and rest: "drain_tracked vs (concat (map (\<lambda>s. rows (parse s)) (pre @ [failing]))) (m1, proto1)
      = ((m', proto'), None)"
    by (auto simp: drain_tracked_None_append)
  from Cons.prems(1) have fin: "ending (parse s) = Finish"
    and all: "list_all (\<lambda>s. ending (parse s) = Finish) pre"
    by simp_all
  have "doIt parse vs (past @ (s # pre) @ failing # post) (length past)
          \<lparr>events = evs, map_obj = m\<rparr> proto
      = doIt parse vs ((past @ [s]) @ pre @ failing # post) (length (past @ [s]))
          \<lparr>events = evs @ [Pipe s], map_obj = m1\<rparr> proto1"
    using doIt_step [of parse vs past s "pre @ failing # post" "\<lparr>events = evs, map_obj = m\<rparr>" proto]
    by (simp add: m1 fin del: append_assoc)
  also have "\<dots> = \<lparr>events = (evs @ [Pipe s]) @ map Pipe (pre @ [failing]) @ [CallbackErr err],
                     map_obj = m'\<rparr>"
    by (rule Cons.IH [OF all Cons.prems(2) rest])
  finally show ?case by simp
qed

lemma doIt_sequences_only:
  "duplicateKeys vs \<Longrightarrow> sequences_only (map_obj st) \<Longrightarrow>
   sequences_only (map_obj (doIt parse vs instream currentStream st proto))"
proof (induction parse vs instream currentStream st proto rule: doIt.induct)
  case (1 parse vs instream currentStream st proto)
  show ?case
  proof (cases "currentStream < length instream")
    case False
    then show ?thesis using "1.prems" by (subst doIt.simps) auto
  next
    case True
    let ?src = "parse (instream ! currentStream)"
    obtain m proto' e where
      d: "drain_tracked vs (rows ?src) (map_obj st, proto) = ((m, proto'), e)"
      by (metis surj_pair)
    have m: "sequences_only m"
      using drain_tracked_sequences_only [of vs "(map_obj st, proto)" "rows ?src"] "1.prems" d
      by simp
    show ?thesis
    proof (cases e)
      case (Some err)
      with True d m show ?thesis by (subst doIt.simps) (simp add: Let_def)
    next
      case None
      show ?thesis
      proof (cases "ending ?src")
        case (ParseError err)
        with True d m None show ?thesis by (subst doIt.simps) (simp add: Let_def)
      next
        case Finish
        have "sequences_only (map_obj (doIt parse vs instream (currentStream + 1)
                \<lparr>events = events st @ [Pipe (instream ! currentStream)], map_obj = m\<rparr> proto'))"
          using True d None Finish m "1.prems"(1)
          by (intro "1.IH" [where x = ?src]) auto
        with True d None Finish show ?thesis by (subst doIt.simps) (simp add: Let_def)
      qed
    qed
  qed
qed

lemma resolve_inputs_opens: "list_all is_open (snd (resolve_inputs i))"
  by (auto simp: resolve_inputs_def resolveStream_def list_all_iff split: input.splits)

lemma filter_callback_Pipe: "filter is_callback (map Pipe ss) = []"
  by (induction ss) auto

lemma filter_callback_open: "list_all is_open evs \<Longrightarrow> filter is_callback evs = []"
  by (induction evs) (auto elim: is_open.elims)

text \<open>
  The sequencing on its own. When every source finishes and no listener call raises,
  \<^verbatim>\<open>build\<close> pipes the sources one after the other in the given order and then calls the
  callback once, with the own properties of the map after all rows went through the
  listener in source order, then in-source order. For every split of the sources into
  earlier and later ones, the later rows are drained into the map the earlier ones left.
\<close>

lemma sources_piped_in_order:
  assumes "\<not> no_names (opt_keyColNames options)"
      and "resolve_inputs (opt_input options) = (instream, opened)"
      and "list_all (\<lambda>s. ending (parse s) = Finish) instream"
      and "drain (build_vars options) (concat (map (\<lambda>s. rows (parse s)) instream)) [] = (m, None)"
  shows "build parse options
           = \<lparr>events = opened @ map Pipe instream @ [CallbackMap m], map_obj = m\<rparr>"
    and "instream = early @ late \<Longrightarrow>
         \<exists>t. drain_tracked (build_vars options) (concat (map (\<lambda>s. rows (parse s)) early))
                ([], Cell ObjectPrototype) = (t, None)
            \<and> fst (fst (drain_tracked (build_vars options)
                  (concat (map (\<lambda>s. rows (parse s)) late)) t)) = m"
proof -
  from assms(4) obtain proto where
    all: "drain_tracked (build_vars options) (concat (map (\<lambda>s. rows (parse s)) instream))
            ([], Cell ObjectPrototype) = ((m, proto), None)"
    by (auto simp: drain_None)
  have "build parse options
      = doIt parse (build_vars options) ([] @ instream) (length ([] :: rstream list))
          \<lparr>events = opened, map_obj = []\<rparr> (Cell ObjectPrototype)"
    using assms(1,2) by (simp add: build_def)
  also have "\<dots> = \<lparr>events = opened @ map Pipe instream @ [CallbackMap m], map_obj = m\<rparr>"
    by (rule doIt_all_finish [OF assms(3) all])
  finally show "build parse options
      = \<lparr>events = opened @ map Pipe instream @ [CallbackMap m], map_obj = m\<rparr>" .
  show "\<exists>t. drain_tracked (build_vars options) (concat (map (\<lambda>s. rows (parse s)) early))
                ([], Cell ObjectPrototype) = (t, None)
            \<and> fst (fst (drain_tracked (build_vars options)
                  (concat (map (\<lambda>s. rows (parse s)) late)) t)) = m"
    if "instream = early @ late"
    using all that by (auto simp: drain_tracked_None_append)
qed

text \<open>
  C5, at a failing input. Two files are given in order; the second holds a row with
  the key \<^verbatim>\<open>__proto__\<close>. Both are piped, one after the other. In overwrite mode the
  callback receives a map with the entry of the first file only: the row of the second
  file is assigned through the setter of \<^verbatim>\<open>Object.prototype\<close> and leaves no entry. In
  duplicate mode the listener raises a \<^verbatim>\<open>TypeError\<close> on that row, and the map holds the
  sequence of the first file only.
\<close>

theorem later_source_proto_key_lost:
  "build proto_files
     \<lparr>opt_keyDelimiter = None, opt_duplicateKeys = False,
      opt_input = Several [InStr ''first.csv'', InStr ''second.csv''],
      opt_keyColNames = Several [''Name''], opt_valColNames = Several [''Sport'']\<rparr>
   = \<lparr>events = [CreateReadStream ''first.csv'', CreateReadStream ''second.csv'',
                 Pipe (ReadStream ''first.csv''), Pipe (ReadStream ''second.csv''),
                 CallbackMap [(''Joe'', Cell (Str ''Soccer''))]],
      map_obj = [(''Joe'', Cell (Str ''Soccer''))]\<rparr>
   \<and> build proto_files
     \<lparr>opt_keyDelimiter = None, opt_duplicateKeys = True,
      opt_input = Several [InStr ''first.csv'', InStr ''second.csv''],
      opt_keyColNames = Several [''Name''], opt_valColNames = Several [''Sport'']\<rparr>
   = \<lparr>events = [CreateReadStream ''first.csv'', CreateReadStream ''second.csv'',
                 Pipe (ReadStream ''first.csv''), Pipe (ReadStream ''second.csv''),
                 Throw TypeError],
      map_obj = [(''Joe'', Arr [Cell (Str ''Soccer'')])]\<rparr>"
  by code_simp

text \<open>
  C7. When the sources before some source finish and that source's parsing fails (no
  listener call having raised), \<^verbatim>\<open>build\<close> pipes the sources up to and including the
  failing one, calls the callback with the parser's error, and does nothing more: the
  sources after the failing one are never piped, the callback is called exactly once,
  and the map still holds what the rows read so far put into it.
\<close>

theorem parse_failure_aborts_build:
  assumes "\<not> no_names (opt_keyColNames options)"
      and "resolve_inputs (opt_input options) = (pre @ failing # post, opened)"
      and "list_all (\<lambda>s. ending (parse s) = Finish) pre"
      and "ending (parse failing) = ParseError err"
      and "drain (build_vars options) (concat (map (\<lambda>s. rows (parse s)) (pre @ [failing]))) []
             = (m, None)"
  shows "build parse options
           = \<lparr>events = opened @ map Pipe (pre @ [failing]) @ [CallbackErr err], map_obj = m\<rparr>
       \<and> filter is_callback (events (build parse options)) = [CallbackErr err]"
proof -
  from assms(5) obtain proto where
    drained: "drain_tracked (build_vars options)
        (concat (map (\<lambda>s. rows (parse s)) (pre @ [failing]))) ([], Cell ObjectPrototype)
      = ((m, proto), None)"
    by (auto simp: drain_None)
  have "build parse options
      = doIt parse (build_vars options) ([] @ pre @ failing # post) (length ([] :: rstream list))
          \<lparr>events = opened, map_obj = []\<rparr> (Cell ObjectPrototype)"
    using assms(1,2) by (simp add: build_def)
  also have "\<dots> = \<lparr>events = opened @ map Pipe (pre @ [failing]) @ [CallbackErr err], map_obj = m\<rparr>"
    by (rule doIt_parse_failure [OF assms(3,4) drained])
  finally have run: "build parse options
      = \<lparr>events = opened @ map Pipe (pre @ [failing]) @ [CallbackErr err], map_obj = m\<rparr>" .
  have "list_all is_open opened"
    using resolve_inputs_opens [of "opt_input options"] assms(2) by simp
  then have "filter is_callback opened = []" by (rule filter_callback_open)
  with run show ?thesis by (simp add: filter_callback_Pipe)
qed

text \<open>
  A malformed file between two well-formed ones: the third file is not piped, and the
  map keeps the rows of the first file and the row read from the second.
\<close>

theorem parse_failure_aborts_build_witness:
  "build sports_files
     \<lparr>opt_keyDelimiter = None, opt_duplicateKeys = True,
      opt_input = Several [InStr ''sports.csv'', InStr ''broken.csv'', InStr ''more.csv''],
      opt_keyColNames = Several [''Name''], opt_valColNames = Several [''Sport'']\<rparr>
   = \<lparr>events = [CreateReadStream ''sports.csv'', CreateReadStream ''broken.csv'',
                 CreateReadStream ''more.csv'',
                 Pipe (ReadStream ''sports.csv''), Pipe (ReadStream ''broken.csv''),
                 CallbackErr ''Invalid closing quote at line 3''],
      map_obj = [(''Joe'', Arr [Cell (Str ''Soccer'')]),
                 (''Sally'', Arr [Cell (Str ''Rugby''), Cell (Str ''Sailing'')])]\<rparr>"
proof -
  let ?options = "\<lparr>opt_keyDelimiter = None, opt_duplicateKeys = True,
      opt_input = Several [InStr ''sports.csv'', InStr ''broken.csv'', InStr ''more.csv''],
      opt_keyColNames = Several [''Name''], opt_valColNames = Several [''Sport'']\<rparr>"
  let ?opened = "[CreateReadStream ''sports.csv'', CreateReadStream ''broken.csv'',
                  CreateReadStream ''more.csv'']"
  have names: "\<not> no_names (opt_keyColNames ?options)"
    by (simp add: no_names_def)
  have inputs: "resolve_inputs (opt_input ?options)
      = ([ReadStream ''sports.csv''] @ ReadStream ''broken.csv'' # [ReadStream ''more.csv''], ?opened)"
    by (simp add: resolve_inputs_def no_input_def as_array_def resolveStream_def)
  have finish: "list_all (\<lambda>s. ending (sports_files s) = Finish) [ReadStream ''sports.csv'']"
    by (simp add: sports_files_def)
  have fails: "ending (sports_files (ReadStream ''broken.csv''))
      = ParseError ''Invalid closing quote at line 3''"
    by (simp add: sports_files_def)
  have rows: "drain (build_vars ?options)
        (concat (map (\<lambda>s. rows (sports_files s))
          ([ReadStream ''sports.csv''] @ [ReadStream ''broken.csv'']))) []
      = ([(''Joe'', Arr [Cell (Str ''Soccer'')]),
          (''Sally'', Arr [Cell (Str ''Rugby''), Cell (Str ''Sailing'')])], None)"
    by code_simp
  from parse_failure_aborts_build [OF names inputs finish fails rows]
  show ?thesis by simp
qed

text \<open>
  C10. In duplicate mode every value the result map holds is an array with at least
  one element: at the end of a build, whatever the sources deliver and however it
  ends, and after any number of rows passed through the listener. Every call of
  \<^verbatim>\<open>doDupKeys\<close> that returns keeps it so, from whatever map of that kind it starts.
\<close>

theorem duplicate_mode_holds_sequences:
  "sequences_only (map_obj (build parse (options\<lparr>opt_duplicateKeys := True\<rparr>)))
   \<and> sequences_only (fst (drain (vs\<lparr>duplicateKeys := True\<rparr>) rs []))
   \<and> (sequences_only m \<and> doDupKeys vs row m = Inr m' \<longrightarrow> sequences_only m')"
proof (intro conjI impI)
  have empty: "sequences_only []" by (simp add: sequences_only_def)
  have dup: "duplicateKeys (build_vars (options\<lparr>opt_duplicateKeys := True\<rparr>))"
    by (simp add: build_vars_def)
  obtain instream opened where r: "resolve_inputs (opt_input options) = (instream, opened)"
    by force
  show "sequences_only (map_obj (build parse (options\<lparr>opt_duplicateKeys := True\<rparr>)))"
  proof (cases "no_names (opt_keyColNames options)")
    case True
    with r empty show ?thesis by (simp add: build_def)
  next
    case False
    have "sequences_only (map_obj (doIt parse (build_vars (options\<lparr>opt_duplicateKeys := True\<rparr>))
            instream 0 \<lparr>events = opened, map_obj = []\<rparr> (Cell ObjectPrototype)))"
      by (rule doIt_sequences_only [OF dup]) (simp add: empty)
    with False r show ?thesis by (simp add: build_def)
  qed
  show "sequences_only (fst (drain (vs\<lparr>duplicateKeys := True\<rparr>) rs []))"
    by (rule drain_sequences_only) (simp_all add: empty)
  show "sequences_only m'" if "sequences_only m \<and> doDupKeys vs row m = Inr m'"
    using that doDupKeys_sequences_only [of m vs row m'] by simp
qed

text \<open>Joe's second sport is appended to the sequence that holds his first.\<close>

theorem duplicate_mode_holds_sequences_witness:
  "sequences_only [(''Joe'', Arr [Cell (Str ''Soccer'')])]
   \<and> doDupKeys \<lparr>keyDelimiter = ''_'', duplicateKeys = True, keyColNames = [''Name''],
                  valColNames = [''Sport'']\<rparr>
        [(''Name'', ''Joe''), (''Sport'', ''Boxing'')] [(''Joe'', Arr [Cell (Str ''Soccer'')])]
       = Inr [(''Joe'', Arr [Cell (Str ''Soccer''), Cell (Str ''Boxing'')])]
   \<and> sequences_only [(''Joe'', Arr [Cell (Str ''Soccer''), Cell (Str ''Boxing'')])]"
proof -
  let ?vs = "\<lparr>keyDelimiter = ''_'', duplicateKeys = True, keyColNames = [''Name''],
              valColNames = [''Sport'']\<rparr>"
  let ?row = "[(''Name'', ''Joe''), (''Sport'', ''Boxing'')]"
  let ?m = "[(''Joe'', Arr [Cell (Str ''Soccer'')])]"
  let ?m' = "[(''Joe'', Arr [Cell (Str ''Soccer''), Cell (Str ''Boxing'')])]"
  have before: "sequences_only ?m"
    by (simp add: sequences_only_def)
  have call: "doDupKeys ?vs ?row ?m = Inr ?m'"
    by code_simp
  from duplicate_mode_holds_sequences [where m = ?m and vs = ?vs and row = ?row and m' = ?m']
    before call
  have "sequences_only ?m'" by blast
  with before call show ?thesis by simp
qed

section \<open>Properties of the Build Orchestrator\<close>

text \<open>
  C6, as amended. When \<^verbatim>\<open>build\<close> is called without key columns it raises the
  configuration error before any stream is piped into the parser and without calling
  the callback, and the map stays empty. The inputs have been resolved by then: the
  only effects before the error are the files opened by \<^verbatim>\<open>fs.createReadStream\<close>.
\<close>

theorem keyColNames_required:
  assumes "no_names (opt_keyColNames options)"
  shows "build parse options
           = \<lparr>events = snd (resolve_inputs (opt_input options)) @ [Throw ConfigError],
              map_obj = []\<rparr>
       \<and> list_all is_open (snd (resolve_inputs (opt_input options)))"
  using assms by (simp add: build_def resolve_inputs_opens split: prod.split)

text \<open>
  Without key columns and without inputs, the error is the only effect; with two file
  names as inputs, both files are opened before the error and nothing is piped.
\<close>

theorem keyColNames_required_witness:
  "build sports_files
     \<lparr>opt_keyDelimiter = None, opt_duplicateKeys = False, opt_input = Absent,
      opt_keyColNames = Absent, opt_valColNames = Several [''Sport'']\<rparr>
   = \<lparr>events = [Throw ConfigError], map_obj = []\<rparr>
   \<and> build sports_files
     \<lparr>opt_keyDelimiter = None, opt_duplicateKeys = False,
      opt_input = Several [InStr ''sports.csv'', InStr ''more.csv''],
      opt_keyColNames = Absent, opt_valColNames = Several [''Sport'']\<rparr>
   = \<lparr>events = [CreateReadStream ''sports.csv'', CreateReadStream ''more.csv'', Throw ConfigError],
      map_obj = []\<rparr>"
proof -
  let ?options = "\<lparr>opt_keyDelimiter = None, opt_duplicateKeys = False, opt_input = Absent,
      opt_keyColNames = Absent, opt_valColNames = Several [''Sport'']\<rparr>"
  let ?files = "\<lparr>opt_keyDelimiter = None, opt_duplicateKeys = False,
      opt_input = Several [InStr ''sports.csv'', InStr ''more.csv''],
      opt_keyColNames = Absent, opt_valColNames = Several [''Sport'']\<rparr>"
  have "no_names (opt_keyColNames ?options)" and "no_names (opt_keyColNames ?files)"
    by (simp_all add: no_names_def)
  from keyColNames_required [OF this(1), of sports_files]
    keyColNames_required [OF this(2), of sports_files]
  show ?thesis
    by (simp add: resolve_inputs_def no_input_def as_array_def resolveStream_def)
qed

text \<open>
  C6 as stated fails on "before any I/O begins": with a file name as input and no
  key columns, the file is opened before the error is raised.
\<close>

theorem config_error_after_file_opened:
  "events (build (emits [])
     \<lparr>opt_keyDelimiter = None, opt_duplicateKeys = False, opt_input = Several [InStr ''data.csv''],
      opt_keyColNames = Absent, opt_valColNames = Absent\<rparr>)
   = [CreateReadStream ''data.csv'', Throw ConfigError]"
  by (simp add: build_def resolve_inputs_def no_input_def no_names_def as_array_def
      resolveStream_def)

text \<open>
  C9. An empty-string \<^verbatim>\<open>keyDelimiter\<close> is falsy, so \<^verbatim>\<open>build\<close> replaces it by the
  default: the whole run is the run without a delimiter option, the delimiter in
  use is \<^verbatim>\<open>"_"\<close>, and a two-column key is joined with an underscore. Called with the
  empty delimiter and the key columns \<^verbatim>\<open>First\<close> and \<^verbatim>\<open>Last\<close> on the row
  \<^verbatim>\<open>{First: "Bill", Last: "Smith", SSN: "111-22-3333"}\<close>, \<^verbatim>\<open>build\<close> hands the callback a
  map whose only key is \<^verbatim>\<open>Bill_Smith\<close>, in overwrite mode and in duplicate mode.
\<close>

theorem empty_keyDelimiter_is_default:
  "build parse (options\<lparr>opt_keyDelimiter := Some []\<rparr>)
     = build parse (options\<lparr>opt_keyDelimiter := None\<rparr>)
   \<and> keyDelimiter (build_vars (options\<lparr>opt_keyDelimiter := Some []\<rparr>)) = ''_''
   \<and> getKey (build_vars (options\<lparr>opt_keyColNames := Several [''First'', ''Last''],
                                   opt_keyDelimiter := Some []\<rparr>))
        [(''First'', ''Bill''), (''Last'', ''Smith'')] = ''Bill_Smith''
   \<and> build (emits [[(''First'', ''Bill''), (''Last'', ''Smith''), (''SSN'', ''111-22-3333'')]])
        \<lparr>opt_keyDelimiter = Some [], opt_duplicateKeys = False, opt_input = Absent,
         opt_keyColNames = Several [''First'', ''Last''], opt_valColNames = Several [''SSN'']\<rparr>
     = \<lparr>events = [Pipe ProcessStdin, CallbackMap [(''Bill_Smith'', Cell (Str ''111-22-3333''))]],
        map_obj = [(''Bill_Smith'', Cell (Str ''111-22-3333''))]\<rparr>
   \<and> build (emits [[(''First'', ''Bill''), (''Last'', ''Smith''), (''SSN'', ''111-22-3333'')]])
        \<lparr>opt_keyDelimiter = Some [], opt_duplicateKeys = True, opt_input = Absent,
         opt_keyColNames = Several [''First'', ''Last''], opt_valColNames = Several [''SSN'']\<rparr>
     = \<lparr>events = [Pipe ProcessStdin,
                   CallbackMap [(''Bill_Smith'', Arr [Cell (Str ''111-22-3333'')])]],
        map_obj = [(''Bill_Smith'', Arr [Cell (Str ''111-22-3333'')])]\<rparr>"
proof -
  have same_vars: "build_vars (options\<lparr>opt_keyDelimiter := Some []\<rparr>)
      = build_vars (options\<lparr>opt_keyDelimiter := None\<rparr>)"
    by (simp add: build_vars_def)
  have "build parse (options\<lparr>opt_keyDelimiter := Some []\<rparr>)
      = build parse (options\<lparr>opt_keyDelimiter := None\<rparr>)"
    by (simp add: build_def same_vars split: prod.split)
  moreover have "keyDelimiter (build_vars (options\<lparr>opt_keyDelimiter := Some []\<rparr>)) = ''_''"
    by (simp add: build_vars_def)
  moreover have "getKey (build_vars (options\<lparr>opt_keyColNames := Several [''First'', ''Last''],
                                   opt_keyDelimiter := Some []\<rparr>))
        [(''First'', ''Bill''), (''Last'', ''Smith'')] = ''Bill_Smith''"
    by (simp add: build_vars_def getKey_join as_array_def row_get_def)
  moreover have "build (emits [[(''First'', ''Bill''), (''Last'', ''Smith''), (''SSN'', ''111-22-3333'')]])
        \<lparr>opt_keyDelimiter = Some [], opt_duplicateKeys = False, opt_input = Absent,
         opt_keyColNames = Several [''First'', ''Last''], opt_valColNames = Several [''SSN'']\<rparr>
     = \<lparr>events = [Pipe ProcessStdin, CallbackMap [(''Bill_Smith'', Cell (Str ''111-22-3333''))]],
        map_obj = [(''Bill_Smith'', Cell (Str ''111-22-3333''))]\<rparr>"
    by code_simp
  moreover have "build (emits [[(''First'', ''Bill''), (''Last'', ''Smith''), (''SSN'', ''111-22-3333'')]])
        \<lparr>opt_keyDelimiter = Some [], opt_duplicateKeys = True, opt_input = Absent,
         opt_keyColNames = Several [''First'', ''Last''], opt_valColNames = Several [''SSN'']\<rparr>
     = \<lparr>events = [Pipe ProcessStdin,
                   CallbackMap [(''Bill_Smith'', Arr [Cell (Str ''111-22-3333'')])]],
        map_obj = [(''Bill_Smith'', Arr [Cell (Str ''111-22-3333'')])]\<rparr>"
    by code_simp
  ultimately show ?thesis by simp
qed

section \<open>The examples of the specification\<close>

text \<open>
  The model at the examples of the specification: rows mapped by \<^verbatim>\<open>Name\<close> to the whole
  row and to the column \<^verbatim>\<open>SSN\<close>, and sports accumulated by \<^verbatim>\<open>Name\<close>.
\<close>

lemma example_single_key_mapping:
  "build (emits [[(''Name'', ''Bill''), (''SSN'', ''111-22-3333'')],
                 [(''Name'', ''Sue''), (''SSN'', ''444-55-6666'')]])
     \<lparr>opt_keyDelimiter = None, opt_duplicateKeys = False, opt_input = Absent,
      opt_keyColNames = Several [''Name''], opt_valColNames = Absent\<rparr>
   = \<lparr>events = [Pipe ProcessStdin,
                 CallbackMap [(''Bill'', Obj [(''Name'', Str ''Bill''), (''SSN'', Str ''111-22-3333'')]),
                              (''Sue'', Obj [(''Name'', Str ''Sue''), (''SSN'', Str ''444-55-6666'')])]],
      map_obj = [(''Bill'', Obj [(''Name'', Str ''Bill''), (''SSN'', Str ''111-22-3333'')]),
                 (''Sue'', Obj [(''Name'', Str ''Sue''), (''SSN'', Str ''444-55-6666'')])]\<rparr>"
  by code_simp

lemma example_single_value_column:
  "map_obj (build (emits [[(''Name'', ''Bill''), (''SSN'', ''111-22-3333'')],
                          [(''Name'', ''Sue''), (''SSN'', ''444-55-6666'')]])
     \<lparr>opt_keyDelimiter = None, opt_duplicateKeys = False, opt_input = Absent,
      opt_keyColNames = Several [''Name''], opt_valColNames = Several [''SSN'']\<rparr>)
   = [(''Bill'', Cell (Str ''111-22-3333'')), (''Sue'', Cell (Str ''444-55-6666''))]"
  by code_simp

lemma example_duplicate_key_accumulation:
  "map_obj (build (emits [[(''Name'', ''Joe''), (''Sport'', ''Soccer'')],
                          [(''Name'', ''Sally''), (''Sport'', ''Rugby'')],
                          [(''Name'', ''Joe''), (''Sport'', ''Boxing'')],
                          [(''Name'', ''Sally''), (''Sport'', ''Sailing'')]])
     \<lparr>opt_keyDelimiter = None, opt_duplicateKeys = True, opt_input = Absent,
      opt_keyColNames = Several [''Name''], opt_valColNames = Several [''Sport'']\<rparr>)
   = [(''Joe'', Arr [Cell (Str ''Soccer''), Cell (Str ''Boxing'')]),
      (''Sally'', Arr [Cell (Str ''Rugby''), Cell (Str ''Sailing'')])]"
  by code_simp

text \<open>
  The model where the prototype of the map is replaced: with the absent value column
  \<^verbatim>\<open>constructor\<close> every row projects to the function \<^verbatim>\<open>Object\<close>; the row keyed
  \<^verbatim>\<open>__proto__\<close> installs it as the prototype of the map, the assignment under
  \<^verbatim>\<open>length\<close> is then dropped, and the one under \<^verbatim>\<open>Bill\<close> is stored.
\<close>

lemma example_prototype_replaced:
  "build (emits [[(''Name'', ''__proto__'')], [(''Name'', ''length'')], [(''Name'', ''Bill'')]])
     \<lparr>opt_keyDelimiter = None, opt_duplicateKeys = False, opt_input = Absent,
      opt_keyColNames = Several [''Name''], opt_valColNames = Several [''constructor'']\<rparr>
   = \<lparr>events = [Pipe ProcessStdin, CallbackMap [(''Bill'', Cell (NativeFn ''Object''))]],
      map_obj = [(''Bill'', Cell (NativeFn ''Object''))]\<rparr>"
  by code_simp

end
